theory Spec2Isabelle
  imports Complex_Main "HOL-Library.Char_ord" "HOL-Library.List_Lexorder"
begin

section \<open>JavaScript values that cross the wire\<close>

text \<open>
  The body of a request, the objects in the client's queue and the items kept in
  browser storage are JSON values. An object is the list of its members in
  source order; \<open>JSON.parse\<close> keeps the last member of a repeated key.
\<close>

datatype json =
    JNull
  | JBool bool
  | JNum rat
  | JStr string
  | JArr "json list"
  | JObj "(string \<times> json) list"

text \<open>
  Reading a property. \<open>None\<close> is JavaScript's \<open>undefined\<close>. Only the six member
  names of an event are ever read, and no primitive or array has one of them, so
  every value but an object answers \<open>undefined\<close>. Reading a property of
  \<open>null\<close> throws; the callers treat \<open>JNull\<close> before they come here.
\<close>

fun property :: "json \<Rightarrow> string \<Rightarrow> json option" where
  "property (JObj fs) k = map_of (rev fs) k"
| "property _ k = None"

text \<open>JavaScript truthiness, as \<open>!x\<close> and \<open>x || y\<close> test it.\<close>

fun truthy :: "json option \<Rightarrow> bool" where
  "truthy None = False"
| "truthy (Some JNull) = False"
| "truthy (Some (JBool b)) = b"
| "truthy (Some (JNum n)) = (n \<noteq> 0)"
| "truthy (Some (JStr s)) = (s \<noteq> [])"
| "truthy (Some (JArr xs)) = True"
| "truthy (Some (JObj fs)) = True"

text \<open>\<open>x || dflt\<close>\<close>

definition or_else :: "json option \<Rightarrow> json \<Rightarrow> json" where
  "or_else x dflt = (if truthy x then the x else dflt)"

text \<open>
  A value bound to a query parameter: the driver sends \<open>undefined\<close> and
  \<open>null\<close> as SQL NULL, written \<open>JNull\<close> in a column.
\<close>

definition sql_param :: "json option \<Rightarrow> json" where
  "sql_param x = (case x of None \<Rightarrow> JNull | Some v \<Rightarrow> v)"

section \<open>Ingestion service: \<open>POST /api/events\<close> (src/server.js)\<close>

text \<open>
  Modelled from the spec: the tables \<open>events\<close> and \<open>sessions\<close> of
  \<open>schema.sql\<close>, which is not among the sources. A column holds the value bound to
  it; \<open>sessions\<close> has one row per \<open>session_id\<close> (the conflict target of the upsert),
  \<open>end_time\<close> is NULL in a new row, and \<open>page_views\<close> is an unbounded integer.
\<close>

record event_row =
  session_id :: json
  event_type :: json
  url :: json
  referrer :: json
  timestamp :: json
  metadata :: json

record session_row =
  start_time :: json
  end_time :: json
  page_views :: int
  user_agent :: "string option"

record db =
  events :: "event_row list"
  sessions :: "json \<rightharpoonup> session_row"

record request =
  body :: json
  headers :: "string \<rightharpoonup> string"

record response =
  status :: nat
  payload :: json

text \<open>
  The statements of one transaction. A fault plan says which of them throw
  (a lost connection, a constraint, a value the column's type rejects).
\<close>

datatype stmt = Begin | InsertEvent nat | UpsertSession nat | Commit

type_synonym faults = "stmt \<Rightarrow> bool"

definition no_faults :: faults where
  "no_faults = (\<lambda>s. False)"

text \<open>\<open>INSERT INTO events (...) VALUES ($1, ..., $6)\<close>\<close>

definition insert_event :: "event_row \<Rightarrow> db \<Rightarrow> db" where
  "insert_event r d = d\<lparr>events := events d @ [r]\<rparr>"

text \<open>
  \<open>INSERT INTO sessions (session_id, start_time, page_views, user_agent)
  VALUES ($1, $2, $3, $4) ON CONFLICT (session_id) DO UPDATE SET
  end_time = EXCLUDED.start_time,
  page_views = sessions.page_views + EXCLUDED.page_views,
  user_agent = COALESCE(sessions.user_agent, EXCLUDED.user_agent)\<close>
\<close>

definition upsert_session :: "json \<Rightarrow> json \<Rightarrow> int \<Rightarrow> string option \<Rightarrow> db \<Rightarrow> db" where
  "upsert_session sid ts isPageview userAgent d =
     (case sessions d sid of
        None \<Rightarrow>
          d\<lparr>sessions := (sessions d)(sid \<mapsto>
              \<lparr>start_time = ts, end_time = JNull, page_views = isPageview,
               user_agent = userAgent\<rparr>)\<rparr>
      | Some s \<Rightarrow>
          d\<lparr>sessions := (sessions d)(sid \<mapsto>
              s\<lparr>end_time := ts,
                page_views := page_views s + isPageview,
                user_agent := (case user_agent s of
                                 None \<Rightarrow> userAgent | Some a \<Rightarrow> Some a)\<rparr>)\<rparr>)"

text \<open>
  The two statements the loop runs for one event: the row for \<open>events\<close>, then
  the upsert of the event's session.
\<close>

definition write_event :: "string option \<Rightarrow> json \<Rightarrow> db \<Rightarrow> db" where
  "write_event userAgent event d =
     upsert_session
       (sql_param (property event ''session_id''))
       (sql_param (property event ''timestamp''))
       (if property event ''event_type'' = Some (JStr ''pageview'') then 1 else 0)
       userAgent
       (insert_event
          \<lparr>session_id = sql_param (property event ''session_id''),
           event_type = sql_param (property event ''event_type''),
           url = sql_param (property event ''url''),
           referrer = or_else (property event ''referrer'') JNull,
           timestamp = sql_param (property event ''timestamp''),
           metadata = or_else (property event ''metadata'') (JObj [])\<rparr>
          d)"

text \<open>
  The \<open>for (const event of events)\<close> loop, at the event with index \<open>i\<close>.
  Destructuring \<open>null\<close> throws a TypeError, which the handler's \<open>catch\<close>
  receives like any failed statement.
\<close>

datatype outcome = MissingFields | Threw | Processed db

fun ingest :: "faults \<Rightarrow> string option \<Rightarrow> nat \<Rightarrow> json list \<Rightarrow> db \<Rightarrow> outcome" where
  "ingest flt userAgent i [] d = Processed d"
| "ingest flt userAgent i (event # rest) d =
     (if event = JNull then Threw
      else if \<not> truthy (property event ''session_id'')
            \<or> \<not> truthy (property event ''event_type'')
            \<or> \<not> truthy (property event ''url'') then MissingFields
      else if flt (InsertEvent i) then Threw
      else if flt (UpsertSession i) then Threw
      else ingest flt userAgent (Suc i) rest (write_event userAgent event d))"

definition reply :: "nat \<Rightarrow> (string \<times> json) list \<Rightarrow> response" where
  "reply code members = \<lparr>status = code, payload = JObj members\<rparr>"

text \<open>
  The handler. A rollback leaves the database as the request found it; only the
  commit publishes what the loop wrote. The connection is taken to be there and
  a \<open>ROLLBACK\<close> to succeed.
\<close>

definition post_events :: "faults \<Rightarrow> request \<Rightarrow> db \<Rightarrow> response \<times> db" where
  "post_events flt req d =
     (case body req of
        JArr evs \<Rightarrow>
          if length evs = 0 then
            (reply 400 [(''error'', JStr ''Empty events array'')], d)
          else if length evs > 100 then
            (reply 400 [(''error'', JStr ''Too many events in batch (max 100)'')], d)
          else if flt Begin then
            (reply 500 [(''error'', JStr ''Internal server error'')], d)
          else
            (case ingest flt (headers req ''user-agent'') 0 evs d of
               MissingFields \<Rightarrow>
                 (reply 400
                    [(''error'', JStr ''Missing required fields: session_id, event_type, url'')], d)
             | Threw \<Rightarrow>
                 (reply 500 [(''error'', JStr ''Internal server error'')], d)
             | Processed d' \<Rightarrow>
                 if flt Commit then
                   (reply 500 [(''error'', JStr ''Internal server error'')], d)
                 else
                   (reply 200
                      [(''message'', JStr ''Events ingested successfully''),
                       (''count'', JNum (of_nat (length evs)))], d'))
      | _ \<Rightarrow>
          (reply 400 [(''error'', JStr ''Invalid payload, expected array of events'')], d))"

subsection \<open>Histories of requests, and the words of the specification\<close>

text \<open>The events of a request's body, when the body is an array.\<close>

definition batch :: "request \<Rightarrow> json list" where
  "batch req = (case body req of JArr evs \<Rightarrow> evs | _ \<Rightarrow> [])"

text \<open>
  A history: requests answered one after the other, each under its own fault
  plan. The result is the database at the end and the events of the requests
  answered 200, in the order of ingestion.
\<close>

fun run :: "(faults \<times> request) list \<Rightarrow> db \<Rightarrow> db \<times> json list" where
  "run [] d = (d, [])"
| "run ((flt, req) # rest) d =
     (case post_events flt req d of
        (resp, d') \<Rightarrow>
          (case run rest d' of
             (d'', evs) \<Rightarrow> (d'', (if status resp = 200 then batch req else []) @ evs)))"

text \<open>An event carries a field when the field is there and not empty.\<close>

definition carries :: "json \<Rightarrow> string \<Rightarrow> bool" where
  "carries event k = truthy (property event k)"

definition well_formed :: "json \<Rightarrow> bool" where
  "well_formed event =
     (carries event ''session_id'' \<and> carries event ''event_type'' \<and> carries event ''url'')"

text \<open>The pageview events of a session among a list of events.\<close>

definition pageviews_of :: "json \<Rightarrow> json list \<Rightarrow> nat" where
  "pageviews_of sid evs =
     length [e \<leftarrow> evs. property e ''session_id'' = Some sid
                      \<and> property e ''event_type'' = Some (JStr ''pageview'')]"

text \<open>A session's \<open>page_views\<close>, zero while the session has no row.\<close>

definition views :: "db \<Rightarrow> json \<Rightarrow> int" where
  "views d sid = (case sessions d sid of None \<Rightarrow> 0 | Some r \<Rightarrow> page_views r)"

text \<open>
  The client writes a timestamp with \<open>toISOString()\<close>: UTC, fixed width, so the
  order of the instants is the lexicographic order of the strings.
\<close>

fun ts_le :: "json \<Rightarrow> json \<Rightarrow> bool" where
  "ts_le (JStr a) (JStr b) = (a \<le> b)"
| "ts_le _ _ = False"

definition event_time :: "json \<Rightarrow> json" where
  "event_time event = sql_param (property event ''timestamp'')"

definition chronological :: "json list \<Rightarrow> bool" where
  "chronological evs = sorted_wrt (\<lambda>a b. ts_le (event_time a) (event_time b)) evs"

definition empty_db :: db where
  "empty_db = \<lparr>events = [], sessions = Map.empty\<rparr>"

text \<open>The events of one session among a list of events, in the list's order.\<close>

definition events_of :: "json \<Rightarrow> json list \<Rightarrow> json list" where
  "events_of sid evs = [e \<leftarrow> evs. property e ''session_id'' = Some sid]"

text \<open>
  What holds of a session's row once the events \<open>own\<close> of the session are
  ingested, in this order: the count is not negative, \<open>start_time\<close> is the
  time of the first of them, and \<open>end_time\<close> is NULL after one event and the
  time of the last after more.
\<close>

definition row_ok :: "json list \<Rightarrow> session_row \<Rightarrow> bool" where
  "row_ok own r =
     (own \<noteq> [] \<and> 0 \<le> page_views r
      \<and> start_time r = event_time (hd own)
      \<and> end_time r = (if length own = 1 then JNull else event_time (last own)))"

section \<open>Delivery engine: the \<open>Pixel\<close> class (src/public/pixel.js)\<close>

text \<open>The fields of \<open>CONFIG\<close>.\<close>

definition maxQueueSize :: nat where
  "maxQueueSize = 50"

definition maxRetries :: nat where
  "maxRetries = 3"

definition retryDelay :: nat where
  "retryDelay = 1000"

definition sessionTimeout :: int where
  "sessionTimeout = 30 * 60 * 1000"

text \<open>
  The item \<open>pixel_failed_events\<close> of a key-value store: absent, text that
  \<open>JSON.parse\<close> rejects, or the array this code wrote there.
\<close>

datatype stored = Missing | Garbled | Stored "json list"

fun contents :: "stored \<Rightarrow> json list" where
  "contents (Stored xs) = xs"
| "contents _ = []"

text \<open>\<open>xs.slice(-n)\<close>: the last \<open>n\<close> elements, all of them when there are fewer.\<close>

definition slice_last :: "nat \<Rightarrow> 'a list \<Rightarrow> 'a list" where
  "slice_last n xs = drop (length xs - n) xs"

text \<open>
  What a timer runs when it fires: the retry's callback
  (\<open>this.isFlushing = false; this.flush()\<close>) or the flush after a recovery.
\<close>

datatype task = RetryFlush | DelayedFlush

text \<open>
  The instance and the browser around it. \<open>localStorage\<close> is \<open>None\<close> where
  \<open>typeof localStorage\<close> is \<open>'undefined'\<close>; \<open>storage_full\<close> says that
  \<open>setItem\<close> throws. \<open>gm_store\<close> and \<open>gm_writable\<close> stand for
  \<open>GM_getValue\<close> and \<open>GM_setValue\<close>, which only the userscript builds have.
  \<open>timers\<close> lists the calls of \<open>setTimeout\<close> (delay in milliseconds), and
  \<open>fetches\<close> the requests issued (\<open>keepalive\<close>, the events of the body).
\<close>

record pixel =
  queue :: "json list"
  sessionId :: string
  retryCount :: nat
  isFlushing :: bool
  localStorage :: "stored option"
  storage_full :: bool
  gm_store :: "stored option"
  gm_writable :: bool
  timers :: "(nat \<times> task) list"
  fetches :: "(bool \<times> json list) list"

text \<open>What \<open>track\<close> reads from the page: the address, the referrer, the clock.\<close>

record page =
  href :: string
  document_referrer :: string
  iso_now :: string

definition event_of :: "string \<Rightarrow> page \<Rightarrow> json \<Rightarrow> json \<Rightarrow> json" where
  "event_of sid pg eventType meta =
     JObj [(''session_id'', JStr sid),
           (''event_type'', eventType),
           (''url'', JStr (href pg)),
           (''referrer'', or_else (Some (JStr (document_referrer pg))) JNull),
           (''timestamp'', JStr (iso_now pg)),
           (''metadata'', meta)]"

text \<open>
  \<open>flush\<close> is asynchronous. \<open>flush_start\<close> is what runs at the call, up to
  \<open>await fetch\<close>: the latch, the snapshot, the cleared queue, the request.
\<close>

definition flush_start :: "bool \<Rightarrow> pixel \<Rightarrow> pixel" where
  "flush_start synchronous st =
     (if length (queue st) = 0 \<or> isFlushing st then st
      else st\<lparr>isFlushing := True, queue := [],
              fetches := fetches st @ [(synchronous, queue st)]\<rparr>)"

text \<open>
  The spill of lines 152 to 160: append to the stored array, keep the last 100.
  A throw inside is caught and logged, and the events are gone.
\<close>

definition store_failed :: "json list \<Rightarrow> pixel \<Rightarrow> pixel" where
  "store_failed eventsToSend st =
     (case localStorage st of
        None \<Rightarrow> st
      | Some Garbled \<Rightarrow> st
      | Some item \<Rightarrow>
          if storage_full st then st
          else st\<lparr>localStorage := Some (Stored (slice_last 100 (contents item @ eventsToSend)))\<rparr>)"

text \<open>
  How the request ended: \<open>response.ok\<close>, a response with another status (the
  code throws on it), or a rejected promise.
\<close>

datatype fetch_result = Ok | NotOk nat | Rejected

text \<open>
  \<open>flush_finish\<close> is what runs when the request has settled, with the
  \<open>synchronous\<close> and \<open>eventsToSend\<close> of the suspended call. The \<open>finally\<close>
  block runs on every path, also after the \<open>return\<close> of the retry branch.
\<close>

definition flush_finish :: "bool \<Rightarrow> json list \<Rightarrow> fetch_result \<Rightarrow> pixel \<Rightarrow> pixel" where
  "flush_finish synchronous eventsToSend res st =
     (if res = Ok then st\<lparr>retryCount := 0, isFlushing := False\<rparr>
      else if \<not> synchronous \<and> retryCount st < maxRetries then
        st\<lparr>retryCount := retryCount st + 1,
           queue := eventsToSend @ queue st,
           timers := timers st @ [(retryDelay * (retryCount st + 1), RetryFlush)],
           isFlushing := False\<rparr>
      else (store_failed eventsToSend st)\<lparr>isFlushing := False\<rparr>)"

text \<open>A flush from call to settlement with nothing in between.\<close>

definition flush :: "bool \<Rightarrow> fetch_result \<Rightarrow> pixel \<Rightarrow> pixel" where
  "flush synchronous res st =
     (if length (queue st) = 0 \<or> isFlushing st then st
      else flush_finish synchronous (queue st) res (flush_start synchronous st))"

text \<open>
  The catch block of the build in src/unnamed/part_002, which has no fallback
  store: past the retries, or on a synchronous flush, nothing is kept.
\<close>

definition flush_finish_part_002 :: "bool \<Rightarrow> json list \<Rightarrow> fetch_result \<Rightarrow> pixel \<Rightarrow> pixel" where
  "flush_finish_part_002 synchronous eventsToSend res st =
     (if res = Ok then st\<lparr>retryCount := 0, isFlushing := False\<rparr>
      else if \<not> synchronous \<and> retryCount st < maxRetries then
        st\<lparr>retryCount := retryCount st + 1,
           queue := eventsToSend @ queue st,
           timers := timers st @ [(retryDelay * (retryCount st + 1), RetryFlush)],
           isFlushing := False\<rparr>
      else st\<lparr>isFlushing := False\<rparr>)"

text \<open>\<open>track\<close>: the call of \<open>flush()\<close> runs \<open>flush_start\<close>, then the push.\<close>

definition track :: "page \<Rightarrow> json \<Rightarrow> json \<Rightarrow> pixel \<Rightarrow> pixel" where
  "track pg eventType meta st =
     (let st1 = (if length (queue st) \<ge> maxQueueSize then flush_start False st else st)
      in st1\<lparr>queue := queue st1 @ [event_of (sessionId st1) pg eventType meta]\<rparr>)"

text \<open>
  A timer fires: its callback runs, and the flush it calls settles with \<open>res\<close>.
\<close>

definition run_task :: "task \<Rightarrow> fetch_result \<Rightarrow> pixel \<Rightarrow> pixel" where
  "run_task t res st =
     (case t of
        RetryFlush \<Rightarrow> flush False res (st\<lparr>isFlushing := False\<rparr>)
      | DelayedFlush \<Rightarrow> flush False res st)"

text \<open>Calls of \<open>track\<close> one after the other.\<close>

fun track_all :: "(page \<times> json \<times> json) list \<Rightarrow> pixel \<Rightarrow> pixel" where
  "track_all [] st = st"
| "track_all ((pg, eventType, meta) # calls) st = track_all calls (track pg eventType meta st)"

text \<open>
  \<open>recoverFailedEvents\<close> of src/unnamed/part_001: the userscript store when
  \<open>GM_getValue\<close> is defined, \<open>localStorage\<close> otherwise. A throw of
  \<open>JSON.parse\<close> is caught and logged.
\<close>

definition recoverFailedEvents :: "pixel \<Rightarrow> pixel" where
  "recoverFailedEvents st =
     (case gm_store st of
        Some item \<Rightarrow>
          if item = Garbled then st
          else if length (contents item) > 0 then
            (let st1 = (if gm_writable st then st\<lparr>gm_store := Some (Stored [])\<rparr> else st)
             in st1\<lparr>queue := queue st1 @ contents item,
                    timers := timers st1 @ [(1000, DelayedFlush)]\<rparr>)
          else st
      | None \<Rightarrow>
          (case localStorage st of
             Some item \<Rightarrow>
               if item = Garbled then st
               else if length (contents item) > 0 then
                 st\<lparr>localStorage := Some Missing,
                    queue := queue st @ contents item,
                    timers := timers st @ [(1000, DelayedFlush)]\<rparr>
               else st
           | None \<Rightarrow> st))"

text \<open>
  \<open>recoverFailedEvents\<close> of src/public/pixel.js: \<open>localStorage\<close> only, and the
  flush is called at once.
\<close>

definition recoverFailedEvents_public :: "pixel \<Rightarrow> pixel" where
  "recoverFailedEvents_public st =
     (case localStorage st of
        None \<Rightarrow> st
      | Some item \<Rightarrow>
          if item = Garbled then st
          else if length (contents item) > 0 then
            flush_start False
              (st\<lparr>queue := queue st @ contents item, localStorage := Some Missing\<rparr>)
          else st)"

section \<open>Session manager: \<open>getOrCreateSession\<close> (src/unnamed/part_002)\<close>

text \<open>
  The item \<open>pixel_session_data\<close>: the record this code writes there.
  \<open>lastActivity\<close> is \<open>None\<close> when the member is absent.
\<close>

record sessionData =
  stored_sessionId :: string
  created :: int
  lastActivity :: "int option"

datatype session_item = NoItem | BadItem | Item sessionData

text \<open>\<open>sessionData.lastActivity || 0\<close>\<close>

definition last_seen :: "sessionData \<Rightarrow> int" where
  "last_seen sessionData = (case lastActivity sessionData of None \<Rightarrow> 0 | Some t \<Rightarrow> t)"

text \<open>
  The storage as the constructor finds it: \<open>getItem_throws\<close> and
  \<open>setItem_throws\<close> say that the call throws; \<open>window_pixelSessionId\<close> is the
  in-memory fallback \<open>window._pixelSessionId\<close>.
\<close>

record session_env =
  session_item :: session_item
  getItem_throws :: bool
  setItem_throws :: bool
  window_pixelSessionId :: "string option"

text \<open>
  What the call reads from the clock and the random generator, in the order
  of the reads. \<open>random36\<close> is \<open>Math.random().toString(36)\<close>, as
  \<open>''0.4fzyo82mvyr''\<close>; it is as long as the number needs.
\<close>

record readings =
  now :: int
  random36 :: string
  id_now :: nat
  created_now :: int
  activity_now :: int
  fallback_random36 :: string
  fallback_now :: nat

definition digit36 :: "nat \<Rightarrow> char" where
  "digit36 d = ''0123456789abcdefghijklmnopqrstuvwxyz'' ! d"

text \<open>\<open>n.toString(36)\<close> for a natural number.\<close>

fun base36 :: "nat \<Rightarrow> string" where
  "base36 n = (if n < 36 then [digit36 n] else base36 (n div 36) @ [digit36 (n mod 36)])"

declare base36.simps [simp del]

text \<open>\<open>s.substr(start, len)\<close> for a start inside the string.\<close>

definition substr :: "nat \<Rightarrow> nat \<Rightarrow> string \<Rightarrow> string" where
  "substr start len s = take len (drop start s)"

definition generateId :: "string \<Rightarrow> nat \<Rightarrow> string" where
  "generateId rnd t = substr 2 9 rnd @ base36 t"

text \<open>The \<open>catch (storageError)\<close> block: the in-memory session.\<close>

definition fallback_session :: "readings \<Rightarrow> session_env \<Rightarrow> string \<times> session_env" where
  "fallback_session rd env =
     (case window_pixelSessionId env of
        Some sid \<Rightarrow> (sid, env)
      | None \<Rightarrow>
          (let sid = ''sess_'' @ generateId (fallback_random36 rd) (fallback_now rd)
           in (sid, env\<lparr>window_pixelSessionId := Some sid\<rparr>)))"

text \<open>The part from \<open>// Create new session\<close> on.\<close>

definition create_session :: "readings \<Rightarrow> session_env \<Rightarrow> string \<times> session_env" where
  "create_session rd env =
     (let newSessionId = ''sess_'' @ generateId (random36 rd) (id_now rd)
      in if setItem_throws env then fallback_session rd env
         else (newSessionId,
               env\<lparr>session_item := Item \<lparr>stored_sessionId = newSessionId,
                                           created = created_now rd,
                                           lastActivity = Some (activity_now rd)\<rparr>\<rparr>))"

text \<open>
  The inner \<open>try\<close> holds the parse, the test and the write of the refreshed
  record; its \<open>catch\<close> goes on to create a session.
\<close>

definition getOrCreateSession :: "readings \<Rightarrow> session_env \<Rightarrow> string \<times> session_env" where
  "getOrCreateSession rd env =
     (if getItem_throws env then fallback_session rd env
      else case session_item env of
             NoItem \<Rightarrow> create_session rd env
           | BadItem \<Rightarrow> create_session rd env
           | Item sessionData \<Rightarrow>
               if now rd - last_seen sessionData < sessionTimeout then
                 if setItem_throws env then create_session rd env
                 else (stored_sessionId sessionData,
                       env\<lparr>session_item := Item (sessionData\<lparr>lastActivity := Some (now rd)\<rparr>)\<rparr>)
               else create_session rd env)"

section \<open>Concrete inputs\<close>

text \<open>Two events of one session; the pageview carries the later timestamp.\<close>

definition late_pageview :: json where
  "late_pageview =
     JObj [(''session_id'', JStr ''sess_a''), (''event_type'', JStr ''pageview''),
           (''url'', JStr ''https://example.org/''),
           (''timestamp'', JStr ''2025-01-01T00:00:10.000Z'')]"

definition early_click :: json where
  "early_click =
     JObj [(''session_id'', JStr ''sess_a''), (''event_type'', JStr ''click''),
           (''url'', JStr ''https://example.org/''),
           (''timestamp'', JStr ''2025-01-01T00:00:05.000Z'')]"

text \<open>An event of another session, earlier than both.\<close>

definition other_visitor :: json where
  "other_visitor =
     JObj [(''session_id'', JStr ''sess_b''), (''event_type'', JStr ''pageview''),
           (''url'', JStr ''https://example.org/about''),
           (''timestamp'', JStr ''2025-01-01T00:00:03.000Z'')]"

definition post :: "json list \<Rightarrow> string option \<Rightarrow> faults \<times> request" where
  "post evs agent = (no_faults, \<lparr>body = JArr evs, headers = (\<lambda>h. None)(''user-agent'' := agent)\<rparr>)"

text \<open>A database that already holds the session, with its user agent.\<close>

definition seeded_db :: db where
  "seeded_db =
     \<lparr>events = [],
      sessions = [JStr ''sess_a'' \<mapsto>
        \<lparr>start_time = JStr ''2025-01-01T00:00:00.000Z'', end_time = JNull,
         page_views = 1, user_agent = Some ''Mozilla/5.0''\<rparr>]\<rparr>"

text \<open>A tracker at rest with one event queued, and a page.\<close>

definition idle_pixel :: pixel where
  "idle_pixel =
     \<lparr>queue = [late_pageview], sessionId = ''sess_a'', retryCount = 0, isFlushing = False,
      localStorage = Some Missing, storage_full = False, gm_store = None, gm_writable = False,
      timers = [], fetches = []\<rparr>"

definition home :: page where
  "home = \<lparr>href = ''https://example.org/'', document_referrer = [],
           iso_now = ''2025-01-01T00:00:20.000Z''\<rparr>"

text \<open>
  The readings of a start-up at which \<open>Math.random()\<close> returns one half, whose
  rendering in base 36 is \<open>0.i\<close>; and a storage without a session.
\<close>

definition half_readings :: readings where
  "half_readings =
     \<lparr>now = 1700000000000, random36 = ''0.i'', id_now = 1700000000000,
      created_now = 1700000000000, activity_now = 1700000000000,
      fallback_random36 = ''0.i'', fallback_now = 1700000000000\<rparr>"

definition long_readings :: readings where
  "long_readings = half_readings\<lparr>random36 := ''0.4fzyo82mvyr''\<rparr>"

definition fresh_storage :: session_env where
  "fresh_storage =
     \<lparr>session_item = NoItem, getItem_throws = False, setItem_throws = False,
      window_pixelSessionId = None\<rparr>"

text \<open>A record written one minute before \<open>now\<close>.\<close>

definition live_storage :: session_env where
  "live_storage =
     fresh_storage\<lparr>session_item := Item \<lparr>stored_sessionId = ''sess_a'',
                                               created = 1699999000000,
                                               lastActivity = Some 1699999940000\<rparr>\<rparr>"

text \<open>A tracker at rest whose queue is at the limit.\<close>

definition full_pixel :: pixel where
  "full_pixel = idle_pixel\<lparr>queue := replicate 50 late_pageview\<rparr>"

text \<open>
  A tracker that has started a flush and has taken 50 clicks since, the request
  still in flight.
\<close>

definition full_pixel_in_flight :: pixel where
  "full_pixel_in_flight =
     track_all (replicate 50 (home, JStr ''click'', JObj [])) (flush_start False idle_pixel)"

text \<open>A record last touched 30 minutes before \<open>now\<close>, to the millisecond.\<close>

definition stale_storage :: session_env where
  "stale_storage =
     fresh_storage\<lparr>session_item := Item \<lparr>stored_sessionId = ''sess_a'',
                                               created = 1699990000000,
                                               lastActivity = Some 1699998200000\<rparr>\<rparr>"

text \<open>A browser whose storage refuses every call.\<close>

definition blocked_storage :: session_env where
  "blocked_storage = fresh_storage\<lparr>getItem_throws := True, setItem_throws := True\<rparr>"

text \<open>A tracker that starts with one event queued and one event in the fallback store.\<close>

definition spilled_pixel :: pixel where
  "spilled_pixel = idle_pixel\<lparr>localStorage := Some (Stored [early_click])\<rparr>"

text \<open>The same under a userscript manager, the event in its store.\<close>

definition gm_pixel :: pixel where
  "gm_pixel = idle_pixel\<lparr>gm_store := Some (Stored [early_click]), gm_writable := True\<rparr>"

text \<open>The tracker after the first attempt and two retries have failed.\<close>

definition after_three_failures :: pixel where
  "after_three_failures =
     run_task RetryFlush Rejected (run_task RetryFlush Rejected (flush False Rejected idle_pixel))"

section \<open>Properties of the ingestion service\<close>

subsection \<open>The loop and the handler\<close>

lemma truthy_Some: "truthy x \<Longrightarrow> \<exists>v. x = Some v \<and> v \<noteq> JNull"
  by (cases x rule: truthy.cases) auto

lemma well_formed_null: "\<not> well_formed JNull"
  by (simp add: well_formed_def carries_def)

lemma ingest_Processed:
  "ingest flt ua i evs d = Processed d' \<Longrightarrow>
     d' = foldl (\<lambda>d e. write_event ua e d) d evs \<and> (\<forall>e \<in> set evs. well_formed e)"
proof (induction evs arbitrary: i d)
  case Nil
  then show ?case by simp
next
  case (Cons e evs)
  from Cons.prems have w: "well_formed e"
    and r: "ingest flt ua (Suc i) evs (write_event ua e d) = Processed d'"
    by (auto simp: well_formed_def carries_def split: if_splits)
  from Cons.IH [OF r] w show ?case by simp
qed

lemma no_faults_never [simp]: "\<not> no_faults s"
  by (simp add: no_faults_def)

lemma ingest_no_faults:
  "JNull \<notin> set evs \<Longrightarrow>
     ingest no_faults ua i evs d =
       (if \<forall>e \<in> set evs. well_formed e
        then Processed (foldl (\<lambda>d e. write_event ua e d) d evs) else MissingFields)"
proof (induction evs arbitrary: i d)
  case Nil
  then show ?case by simp
next
  case (Cons e evs)
  then show ?case
    by (auto simp: well_formed_def carries_def)
qed

lemma post_events_cases:
  "post_events flt req d = (resp, d') \<Longrightarrow>
     (status resp = 200 \<and> (\<exists>evs. body req = JArr evs \<and> evs \<noteq> [] \<and> length evs \<le> 100 \<and>
         ingest flt (headers req ''user-agent'') 0 evs d = Processed d'))
     \<or> (status resp \<noteq> 200 \<and> d' = d)"
  by (auto simp: post_events_def reply_def split: json.splits if_splits outcome.splits)

lemma post_events_accepted:
  assumes "post_events flt req d = (resp, d')" and "status resp = 200"
  shows "d' = foldl (\<lambda>d e. write_event (headers req ''user-agent'') e d) d (batch req)"
    and "\<forall>e \<in> set (batch req). well_formed e"
  using post_events_cases [OF assms(1)] assms(2) ingest_Processed
  by (fastforce simp: batch_def)+

lemma post_events_refused:
  "status (fst (post_events flt req d)) \<noteq> 200 \<Longrightarrow> snd (post_events flt req d) = d"
  using post_events_cases [of flt req d] by (cases "post_events flt req d") auto

lemma post_events_not_array:
  "\<forall>evs. body req \<noteq> JArr evs \<Longrightarrow> status (fst (post_events flt req d)) = 400"
  by (cases "body req") (auto simp: post_events_def reply_def)

lemma post_events_400_iff:
  assumes "body req = JArr evs" and "JNull \<notin> set evs"
  shows "status (fst (post_events no_faults req d)) = 400
           \<longleftrightarrow> evs = [] \<or> 100 < length evs \<or> (\<exists>e \<in> set evs. \<not> well_formed e)"
  using assms
  by (auto simp: post_events_def reply_def ingest_no_faults)

lemma post_events_200:
  assumes "body req = JArr evs" and "evs \<noteq> []" and "length evs \<le> 100"
    and "\<forall>e \<in> set evs. well_formed e"
  shows "fst (post_events no_faults req d) =
           reply 200 [(''message'', JStr ''Events ingested successfully''),
                      (''count'', JNum (of_nat (length evs)))]"
proof -
  have "JNull \<notin> set evs" using assms(4) well_formed_null by blast
  then show ?thesis using assms
    by (auto simp: post_events_def ingest_no_faults)
qed

text \<open>
  Claim C1. A request is answered 400 exactly when its body is not an array, is
  empty, has more than 100 entries or holds an entry without one of the three
  fields; a refused batch leaves the database as it was; a batch of 1 to 100
  well-formed events is answered 200 with their number. The lemmas above
  (\<open>post_events_400_iff\<close>, \<open>post_events_not_array\<close>, \<open>post_events_refused\<close>,
  \<open>post_events_200\<close>) show all of this for bodies without a \<open>null\<close> entry. An
  entry \<open>null\<close> has none of the fields, and yet the answer is 500, not 400: the
  destructuring throws before the validation reads a field.
\<close>

theorem post_events_null_entry:
  "post_events no_faults \<lparr>body = JArr [JNull], headers = hs\<rparr> d =
     (reply 500 [(''error'', JStr ''Internal server error'')], d)"
  by (simp add: post_events_def)

subsection \<open>What one event does to the session table\<close>

lemma sessions_insert_event [simp]: "sessions (insert_event r d) = sessions d"
  by (simp add: insert_event_def)

lemma views_write_event:
  "well_formed e \<Longrightarrow> views (write_event ua e d) sid = views d sid + int (pageviews_of sid [e])"
  by (auto simp: views_def write_event_def upsert_session_def pageviews_of_def sql_param_def
        well_formed_def carries_def dest!: truthy_Some split: option.splits)

lemma foldl_invariant:
  assumes step: "\<And>d acc e. P d acc \<Longrightarrow> well_formed e \<Longrightarrow> P (write_event ua e d) (acc @ [e])"
  shows "P d acc \<Longrightarrow> \<forall>e \<in> set evs. well_formed e \<Longrightarrow>
           P (foldl (\<lambda>d e. write_event ua e d) d evs) (acc @ evs)"
proof (induction evs arbitrary: d acc)
  case Nil
  then show ?case by simp
next
  case (Cons e evs)
  from Cons.prems have "P (write_event ua e d) (acc @ [e])"
    by (simp add: step)
  from Cons.IH [OF this] Cons.prems(2) show ?case by simp
qed

lemma run_invariant:
  assumes step: "\<And>ua d acc e. P d acc \<Longrightarrow> well_formed e \<Longrightarrow> P (write_event ua e d) (acc @ [e])"
  shows "run reqs d = (d', evs) \<Longrightarrow> P d acc \<Longrightarrow> P d' (acc @ evs)"
proof (induction reqs arbitrary: d d' evs acc)
  case Nil
  then show ?case by simp
next
  case (Cons a reqs)
  obtain flt req where a: "a = (flt, req)" by (cases a)
  obtain resp d1 where p: "post_events flt req d = (resp, d1)" by (cases "post_events flt req d")
  obtain d2 evs2 where r: "run reqs d1 = (d2, evs2)" by (cases "run reqs d1")
  let ?new = "if status resp = 200 then batch req else []"
  from Cons.prems(1) a p r have d': "d' = d2" and evs: "evs = ?new @ evs2"
    by auto
  have "P d1 (acc @ ?new)"
  proof (cases "status resp = 200")
    case True
    with post_events_accepted [OF p] foldl_invariant [of P, OF step Cons.prems(2)]
    show ?thesis by simp
  next
    case False
    with post_events_cases [OF p] Cons.prems(2) show ?thesis by auto
  qed
  from Cons.IH [OF r this] show ?case
    unfolding d' evs by simp
qed

lemma pageviews_of_snoc:
  "pageviews_of sid (acc @ [e]) = pageviews_of sid acc + pageviews_of sid [e]"
  by (simp add: pageviews_of_def)

lemma run_views:
  assumes "run reqs d = (d', evs)"
  shows "views d' sid = views d sid + int (pageviews_of sid evs)"
proof -
  let ?P = "\<lambda>(x :: db) acc. views x sid = views d sid + int (pageviews_of sid acc)"
  have "?P d' ([] @ evs)"
  proof (rule run_invariant [of ?P, OF _ assms])
    show "?P d []" by (simp add: pageviews_of_def)
  next
    fix ua x acc e
    assume "?P x acc" and "well_formed e"
    then show "?P (write_event ua e x) (acc @ [e])"
      by (simp add: views_write_event pageviews_of_snoc)
  qed
  then show ?thesis by simp
qed

lemma row_after_write_event:
  "well_formed e \<Longrightarrow>
     sessions (write_event ua e d) sid \<noteq> None
       \<longleftrightarrow> sessions d sid \<noteq> None \<or> property e ''session_id'' = Some sid"
  by (auto simp: write_event_def upsert_session_def sql_param_def well_formed_def carries_def
        dest!: truthy_Some split: option.splits)

lemma run_rows:
  assumes "run reqs d = (d', evs)"
  shows "sessions d' sid \<noteq> None
           \<longleftrightarrow> sessions d sid \<noteq> None \<or> (\<exists>e \<in> set evs. property e ''session_id'' = Some sid)"
proof -
  let ?P = "\<lambda>(x :: db) acc. sessions x sid \<noteq> None
              \<longleftrightarrow> sessions d sid \<noteq> None \<or> (\<exists>e \<in> set acc. property e ''session_id'' = Some sid)"
  have "?P d' ([] @ evs)"
  proof (rule run_invariant [of ?P, OF _ assms])
    show "?P d []" by simp
  next
    fix ua x acc e
    assume "?P x acc" and "well_formed e"
    then show "?P (write_event ua e x) (acc @ [e])"
      using row_after_write_event [of e ua x sid] by auto
  qed
  then show ?thesis by simp
qed

text \<open>
  Claim C4. Over any history of requests that starts where the session has no
  row, the stored \<open>page_views\<close> of a session with an ingested event is the
  number of ingested events of that session whose \<open>event_type\<close> is
  \<open>'pageview'\<close>: each ingested event adds 1 when it is a pageview and 0
  otherwise (\<open>views_write_event\<close>).
\<close>

theorem page_views_count_pageviews:
  assumes "run reqs d = (d', evs)" and "sessions d sid = None"
    and "e \<in> set evs" and "property e ''session_id'' = Some sid"
  shows "\<exists>r. sessions d' sid = Some r \<and> page_views r = int (pageviews_of sid evs)"
proof -
  from run_rows [OF assms(1), of sid] assms(3,4)
  obtain r where r: "sessions d' sid = Some r" by auto
  from run_views [OF assms(1), of sid] assms(2) r
  have "page_views r = int (pageviews_of sid evs)" by (simp add: views_def)
  with r show ?thesis by simp
qed

subsection \<open>The user agent\<close>

lemma user_agent_write_event:
  "sessions d sid = Some r \<Longrightarrow> user_agent r = Some a \<Longrightarrow>
     \<exists>r'. sessions (write_event ua e d) sid = Some r' \<and> user_agent r' = Some a"
  by (auto simp: write_event_def upsert_session_def split: option.splits)

text \<open>
  Claim C8. Once the row of a session has a \<open>user_agent\<close>, no later request
  changes it, whatever \<open>User-Agent\<close> header, body or fault the request has.
\<close>

theorem user_agent_first_write_wins:
  assumes "sessions d sid = Some r" and "user_agent r = Some a"
    and "run reqs d = (d', evs)"
  shows "\<exists>r'. sessions d' sid = Some r' \<and> user_agent r' = Some a"
proof -
  let ?P = "\<lambda>(x :: db) (acc :: json list). \<exists>r'. sessions x sid = Some r' \<and> user_agent r' = Some a"
  have "?P d' ([] @ evs)"
  proof (rule run_invariant [of ?P, OF _ assms(3)])
    show "?P d []" using assms(1,2) by simp
  next
    fix ua x acc e
    assume "?P x acc"
    then show "?P (write_event ua e x) (acc @ [e])"
      using user_agent_write_event by blast
  qed
  then show ?thesis .
qed

subsection \<open>The invariant of a session row\<close>

lemma events_of_snoc:
  "well_formed e \<Longrightarrow>
     events_of sid (acc @ [e])
       = (if sid = sql_param (property e ''session_id'')
          then events_of sid acc @ [e] else events_of sid acc)"
  by (auto simp: events_of_def sql_param_def well_formed_def carries_def dest!: truthy_Some)

lemma chronological_ends:
  assumes "chronological xs" and "length xs \<noteq> 1" and "xs \<noteq> []"
  shows "ts_le (event_time (hd xs)) (event_time (last xs))"
proof -
  from assms(2,3) obtain x zs where xs: "xs = x # zs" and zs: "zs \<noteq> []"
    by (cases xs) auto
  from zs have "last zs \<in> set zs" by simp
  moreover from assms(1) xs have "\<forall>z \<in> set zs. ts_le (event_time x) (event_time z)"
    by (simp add: chronological_def)
  ultimately have "ts_le (event_time x) (event_time (last zs))" by blast
  with xs zs show ?thesis by simp
qed

text \<open>
  The invariant of the whole table: a session without a row has no ingested
  event, a session with a row has the row of its events.
\<close>

lemma table_ok_write_event:
  assumes inv: "\<forall>sid. case sessions d sid of
                       None \<Rightarrow> events_of sid acc = []
                     | Some r \<Rightarrow> row_ok (events_of sid acc) r"
    and wf: "well_formed e"
  shows "case sessions (write_event ua e d) sid of
           None \<Rightarrow> events_of sid (acc @ [e]) = []
         | Some r \<Rightarrow> row_ok (events_of sid (acc @ [e])) r"
proof (cases "sid = sql_param (property e ''session_id'')")
  case False
  then have "sessions (write_event ua e d) sid = sessions d sid"
    by (auto simp: write_event_def upsert_session_def split: option.splits)
  moreover from inv have "case sessions d sid of
                       None \<Rightarrow> events_of sid acc = []
                     | Some r \<Rightarrow> row_ok (events_of sid acc) r"
    by (rule spec)
  moreover have "events_of sid (acc @ [e]) = events_of sid acc"
    using False wf by (simp add: events_of_snoc)
  ultimately show ?thesis by (simp split: option.splits)
next
  case True
  have own: "events_of sid (acc @ [e]) = events_of sid acc @ [e]"
    using True wf by (simp add: events_of_snoc)
  show ?thesis
  proof (cases "sessions d sid")
    case None
    with inv have "events_of sid acc = []"
      by (metis option.simps(4))
    with own have o: "events_of sid (acc @ [e]) = [e]" by simp
    have s: "sessions (write_event ua e d) sid
               = Some \<lparr>start_time = event_time e, end_time = JNull,
                       page_views = (if property e ''event_type'' = Some (JStr ''pageview'')
                                     then 1 else 0),
                       user_agent = ua\<rparr>"
      using None True by (simp add: write_event_def upsert_session_def event_time_def)
    show ?thesis by (simp add: s o row_ok_def)
  next
    case (Some old)
    with inv have old: "row_ok (events_of sid acc) old"
      by (metis option.simps(5))
    then have ne: "events_of sid acc \<noteq> []" by (simp add: row_ok_def)
    have s: "sessions (write_event ua e d) sid
               = Some (old\<lparr>end_time := event_time e,
                            page_views := page_views old
                              + (if property e ''event_type'' = Some (JStr ''pageview'')
                                 then 1 else 0),
                            user_agent := (case user_agent old of
                                             None \<Rightarrow> ua | Some a \<Rightarrow> Some a)\<rparr>)"
      using Some True by (simp add: write_event_def upsert_session_def event_time_def)
    from ne have h: "hd (events_of sid acc @ [e]) = hd (events_of sid acc)"
      and l: "length (events_of sid acc @ [e]) \<noteq> 1"
      by (cases "events_of sid acc"; simp)+
    from old ne have "row_ok (events_of sid acc @ [e])
              (old\<lparr>end_time := event_time e,
                    page_views := page_views old
                      + (if property e ''event_type'' = Some (JStr ''pageview'')
                         then 1 else 0),
                    user_agent := (case user_agent old of
                                     None \<Rightarrow> ua | Some a \<Rightarrow> Some a)\<rparr>)"
      unfolding row_ok_def h using l by simp
    then show ?thesis by (simp add: s own)
  qed
qed

text \<open>
  Claim C9, amended. In every database reached from the empty one by any
  history of requests, each session row has \<open>page_views\<close> at least 0, its
  \<open>start_time\<close> is the timestamp of the session's first ingested event, and
  its \<open>end_time\<close> is NULL after one event and the timestamp of the session's
  last ingested event after more. So a row whose \<open>end_time\<close> is not NULL has
  \<open>end_time\<close> at or after \<open>start_time\<close> exactly when the last ingested event
  of the session is not earlier than its first; this is so whenever the events
  of that session, whatever the events of other sessions, arrived in the order
  of their timestamps.
\<close>

theorem session_row_invariant:
  assumes "run reqs empty_db = (d', evs)" and "sessions d' sid = Some r"
  shows "0 \<le> page_views r
       \<and> events_of sid evs \<noteq> []
       \<and> start_time r = event_time (hd (events_of sid evs))
       \<and> end_time r = (if length (events_of sid evs) = 1 then JNull
                        else event_time (last (events_of sid evs)))
       \<and> (end_time r \<noteq> JNull \<longrightarrow>
            ts_le (start_time r) (end_time r)
              = ts_le (event_time (hd (events_of sid evs))) (event_time (last (events_of sid evs))))
       \<and> (chronological (events_of sid evs) \<longrightarrow> end_time r \<noteq> JNull \<longrightarrow>
            ts_le (start_time r) (end_time r))"
proof -
  let ?P = "\<lambda>(x :: db) acc. \<forall>sid. case sessions x sid of
                                         None \<Rightarrow> events_of sid acc = []
                                       | Some r \<Rightarrow> row_ok (events_of sid acc) r"
  have "?P d' ([] @ evs)"
  proof (rule run_invariant [of ?P, OF _ assms(1)])
    show "?P empty_db []" by (simp add: empty_db_def events_of_def)
  next
    fix ua x acc e
    assume "?P x acc" and "well_formed e"
    then show "?P (write_event ua e x) (acc @ [e])"
      using table_ok_write_event by blast
  qed
  with assms(2) have ok: "row_ok (events_of sid evs) r"
    by (metis append_Nil option.simps(5))
  then have parts: "0 \<le> page_views r" "events_of sid evs \<noteq> []"
    "start_time r = event_time (hd (events_of sid evs))"
    "end_time r = (if length (events_of sid evs) = 1 then JNull
                   else event_time (last (events_of sid evs)))"
    by (simp_all add: row_ok_def)
  have same: "end_time r \<noteq> JNull \<longrightarrow>
            ts_le (start_time r) (end_time r)
              = ts_le (event_time (hd (events_of sid evs))) (event_time (last (events_of sid evs)))"
    using parts(3,4) by (simp split: if_splits)
  have "chronological (events_of sid evs) \<longrightarrow> end_time r \<noteq> JNull \<longrightarrow>
            ts_le (start_time r) (end_time r)"
  proof (intro impI)
    assume c: "chronological (events_of sid evs)" and n: "end_time r \<noteq> JNull"
    from n parts(4) have "length (events_of sid evs) \<noteq> 1" by (auto split: if_splits)
    from chronological_ends [OF c this parts(2)] same n show "ts_le (start_time r) (end_time r)"
      by simp
  qed
  with parts same show ?thesis by blast
qed

subsection \<open>What a batch of well-formed events writes\<close>

lemma post_events_writes:
  assumes "body req = JArr evs" and "evs \<noteq> []" and "length evs \<le> 100"
    and "\<forall>e \<in> set evs. well_formed e"
  shows "post_events no_faults req d
           = (reply 200 [(''message'', JStr ''Events ingested successfully''),
                         (''count'', JNum (of_nat (length evs)))],
              foldl (\<lambda>d e. write_event (headers req ''user-agent'') e d) d evs)"
proof -
  have "JNull \<notin> set evs" using assms(4) well_formed_null by blast
  then show ?thesis using assms
    by (auto simp: post_events_def ingest_no_faults)
qed

lemma events_write_event:
  "events (write_event ua e d)
     = events d @ [\<lparr>session_id = sql_param (property e ''session_id''),
                     event_type = sql_param (property e ''event_type''),
                     url = sql_param (property e ''url''),
                     referrer = or_else (property e ''referrer'') JNull,
                     timestamp = sql_param (property e ''timestamp''),
                     metadata = or_else (property e ''metadata'') (JObj [])\<rparr>]"
  by (simp add: write_event_def upsert_session_def insert_event_def split: option.splits)

lemma events_foldl:
  "events (foldl (\<lambda>d e. write_event ua e d) d evs)
     = events d @ map (\<lambda>e. \<lparr>session_id = sql_param (property e ''session_id''),
                               event_type = sql_param (property e ''event_type''),
                               url = sql_param (property e ''url''),
                               referrer = or_else (property e ''referrer'') JNull,
                               timestamp = sql_param (property e ''timestamp''),
                               metadata = or_else (property e ''metadata'') (JObj [])\<rparr>) evs"
  by (induction evs arbitrary: d) (simp_all add: events_write_event)

lemma sessions_upsert_session:
  "sessions d1 = sessions d2 \<Longrightarrow>
     sessions (upsert_session sid ts n ua d1) = sessions (upsert_session sid ts n ua d2)"
  by (simp add: upsert_session_def split: option.splits)

lemma sessions_foldl:
  "sessions d1 = sessions d2 \<Longrightarrow>
     sessions (foldl (\<lambda>d e. write_event ua e d) d1 evs)
       = sessions (foldl (\<lambda>d e. upsert_session
                          (sql_param (property e ''session_id''))
                          (sql_param (property e ''timestamp''))
                          (if property e ''event_type'' = Some (JStr ''pageview'') then 1 else 0)
                          ua d) d2 evs)"
proof (induction evs arbitrary: d1 d2)
  case Nil
  then show ?case by simp
next
  case (Cons e evs)
  have "sessions (write_event ua e d1)
          = sessions (upsert_session
                          (sql_param (property e ''session_id''))
                          (sql_param (property e ''timestamp''))
                          (if property e ''event_type'' = Some (JStr ''pageview'') then 1 else 0)
                          ua d2)"
    unfolding write_event_def
    by (rule sessions_upsert_session) (simp add: Cons.prems)
  from Cons.IH [OF this] show ?case by simp
qed

lemma nth_events_foldl:
  assumes "i < length evs"
  shows "events (foldl (\<lambda>d e. write_event ua e d) d evs) ! (length (events d) + i)
     = \<lparr>session_id = sql_param (property (evs ! i) ''session_id''),
        event_type = sql_param (property (evs ! i) ''event_type''),
        url = sql_param (property (evs ! i) ''url''),
        referrer = or_else (property (evs ! i) ''referrer'') JNull,
        timestamp = sql_param (property (evs ! i) ''timestamp''),
        metadata = or_else (property (evs ! i) ''metadata'') (JObj [])\<rparr>"
  unfolding events_foldl nth_append_length_plus
  using assms by (rule nth_map)

lemma stored_row:
  assumes "well_formed e"
    and "r = \<lparr>session_id = sql_param (property e ''session_id''),
              event_type = sql_param (property e ''event_type''),
              url = sql_param (property e ''url''),
              referrer = or_else (property e ''referrer'') JNull,
              timestamp = sql_param (property e ''timestamp''),
              metadata = or_else (property e ''metadata'') (JObj [])\<rparr>"
  shows "property e ''event_type'' = Some (event_type r)
       \<and> property e ''session_id'' = Some (session_id r)
       \<and> property e ''url'' = Some (url r)
       \<and> (property e ''referrer'' = None \<longrightarrow> referrer r = JNull)
       \<and> (property e ''metadata'' = None \<longrightarrow> metadata r = JObj [])"
proof -
  from assms(1) have t: "truthy (property e ''session_id'')"
    "truthy (property e ''event_type'')" "truthy (property e ''url'')"
    by (simp_all add: well_formed_def carries_def)
  from truthy_Some [OF t(1)] obtain a where a: "property e ''session_id'' = Some a" by blast
  from truthy_Some [OF t(2)] obtain b where b: "property e ''event_type'' = Some b" by blast
  from truthy_Some [OF t(3)] obtain c where c: "property e ''url'' = Some c" by blast
  show ?thesis
    unfolding assms(2) by (simp add: a b c sql_param_def or_else_def)
qed

text \<open>
  Two batches that differ in nothing the upsert reads but the names of the
  event types, and agree on which of them are \<open>'pageview'\<close>, leave the same
  session table.
\<close>

lemma session_table_sees_only_the_test:
  assumes "list_all2 (\<lambda>e e'. property e ''session_id'' = property e' ''session_id''
                          \<and> property e ''timestamp'' = property e' ''timestamp''
                          \<and> (property e ''event_type'' = Some (JStr ''pageview''))
                              = (property e' ''event_type'' = Some (JStr ''pageview''))) evs evs'"
  shows "sessions (foldl (\<lambda>d e. write_event ua e d) d1 evs)
           = sessions (foldl (\<lambda>d e. write_event ua e d) d1 evs')"
proof -
  let ?F = "\<lambda>d e. upsert_session
                    (sql_param (property e ''session_id''))
                    (sql_param (property e ''timestamp''))
                    (if property e ''event_type'' = Some (JStr ''pageview'') then 1 else 0)
                    ua d"
  from assms have "foldl ?F d1 evs = foldl ?F d1 evs'"
  proof (induction evs evs' arbitrary: d1 rule: list_all2_induct)
    case Nil
    then show ?case by simp
  next
    case (Cons e evs e' evs')
    from Cons.hyps(1) have "?F d1 e = ?F d1 e'" by simp
    with Cons.IH [of "?F d1 e'"] show ?case by simp
  qed
  then show ?thesis
    by (simp add: sessions_foldl [OF refl])
qed

text \<open>
  Claim C10. The handler does not compare \<open>event_type\<close> with the three names of
  the enumeration. Every batch of 1 to 100 events, each with a session, a url
  and any non-empty type (any string will do), is answered 200 with its count;
  every event of the batch, at its place, has a row whose \<open>event_type\<close> is the
  value that came, and whose referrer and metadata are NULL and the empty object
  when the event has none; and the session table is the one the upserts leave
  when each event counts 1 if its type is \<open>'pageview'\<close> and 0 otherwise.
\<close>

theorem event_type_not_checked:
  assumes "body req = JArr evs" and "evs \<noteq> []" and "length evs \<le> 100"
    and "\<forall>e \<in> set evs. well_formed e"
    and "post_events no_faults req d = (resp, d')"
  shows "resp = reply 200 [(''message'', JStr ''Events ingested successfully''),
                          (''count'', JNum (of_nat (length evs)))]
       \<and> length (events d') = length (events d) + length evs
       \<and> take (length (events d)) (events d') = events d
       \<and> (\<forall>i < length evs.
             property (evs ! i) ''event_type''
               = Some (event_type (events d' ! (length (events d) + i)))
             \<and> property (evs ! i) ''session_id''
               = Some (session_id (events d' ! (length (events d) + i)))
             \<and> property (evs ! i) ''url''
               = Some (url (events d' ! (length (events d) + i)))
             \<and> (property (evs ! i) ''referrer'' = None \<longrightarrow>
                  referrer (events d' ! (length (events d) + i)) = JNull)
             \<and> (property (evs ! i) ''metadata'' = None \<longrightarrow>
                  metadata (events d' ! (length (events d) + i)) = JObj []))
       \<and> sessions d' =
           sessions (foldl (\<lambda>d e. upsert_session
                              (sql_param (property e ''session_id''))
                              (sql_param (property e ''timestamp''))
                              (if property e ''event_type'' = Some (JStr ''pageview'')
                               then 1 else 0)
                              (headers req ''user-agent'') d) d evs)"
proof -
  let ?ua = "headers req ''user-agent''"
  from post_events_writes [OF assms(1-4), of d] assms(5)
  have resp: "resp = reply 200 [(''message'', JStr ''Events ingested successfully''),
                               (''count'', JNum (of_nat (length evs)))]"
    and d': "d' = foldl (\<lambda>d e. write_event ?ua e d) d evs"
    by simp_all
  have rows: "\<forall>i < length evs.
             property (evs ! i) ''event_type''
               = Some (event_type (events d' ! (length (events d) + i)))
             \<and> property (evs ! i) ''session_id''
               = Some (session_id (events d' ! (length (events d) + i)))
             \<and> property (evs ! i) ''url''
               = Some (url (events d' ! (length (events d) + i)))
             \<and> (property (evs ! i) ''referrer'' = None \<longrightarrow>
                  referrer (events d' ! (length (events d) + i)) = JNull)
             \<and> (property (evs ! i) ''metadata'' = None \<longrightarrow>
                  metadata (events d' ! (length (events d) + i)) = JObj [])"
  proof (intro allI impI)
    fix i assume i: "i < length evs"
    then have "well_formed (evs ! i)" using assms(4) by simp
    from stored_row [OF this nth_events_foldl [OF i, of ?ua d]]
    show "property (evs ! i) ''event_type''
               = Some (event_type (events d' ! (length (events d) + i)))
             \<and> property (evs ! i) ''session_id''
               = Some (session_id (events d' ! (length (events d) + i)))
             \<and> property (evs ! i) ''url''
               = Some (url (events d' ! (length (events d) + i)))
             \<and> (property (evs ! i) ''referrer'' = None \<longrightarrow>
                  referrer (events d' ! (length (events d) + i)) = JNull)
             \<and> (property (evs ! i) ''metadata'' = None \<longrightarrow>
                  metadata (events d' ! (length (events d) + i)) = JObj [])"
      unfolding d' .
  qed
  have table: "sessions d' =
           sessions (foldl (\<lambda>d e. upsert_session
                              (sql_param (property e ''session_id''))
                              (sql_param (property e ''timestamp''))
                              (if property e ''event_type'' = Some (JStr ''pageview'')
                               then 1 else 0)
                              ?ua d) d evs)"
    unfolding d' by (rule sessions_foldl [OF refl])
  have len: "length (events d') = length (events d) + length evs"
    unfolding d' events_foldl by simp
  have old: "take (length (events d)) (events d') = events d"
    unfolding d' events_foldl by simp
  from resp len old rows table show ?thesis by blast
qed

subsection \<open>The properties at concrete histories\<close>

text \<open>Two requests, three events, two of them pageviews of the session.\<close>

theorem page_views_count_pageviews_witness:
  "sessions empty_db (JStr ''sess_a'') = None
   \<and> late_pageview \<in> set (snd (run [post [late_pageview] None,
                                      post [early_click, late_pageview] (Some ''curl/8.0'')] empty_db))
   \<and> property late_pageview ''session_id'' = Some (JStr ''sess_a'')
   \<and> (\<exists>r. sessions (fst (run [post [late_pageview] None,
                                post [early_click, late_pageview] (Some ''curl/8.0'')] empty_db))
               (JStr ''sess_a'') = Some r
          \<and> page_views r = 2)"
  using page_views_count_pageviews
    [of "[post [late_pageview] None, post [early_click, late_pageview] (Some ''curl/8.0'')]"
        empty_db
        "fst (run [post [late_pageview] None,
                   post [early_click, late_pageview] (Some ''curl/8.0'')] empty_db)"
        "snd (run [post [late_pageview] None,
                   post [early_click, late_pageview] (Some ''curl/8.0'')] empty_db)"
        "JStr ''sess_a''" late_pageview]
  by (simp add: post_def post_events_def write_event_def upsert_session_def insert_event_def
      sql_param_def or_else_def reply_def batch_def empty_db_def
      late_pageview_def early_click_def pageviews_of_def)

text \<open>A request with another user agent, for a session that has one.\<close>

theorem user_agent_first_write_wins_witness:
  "sessions seeded_db (JStr ''sess_a'')
     = Some \<lparr>start_time = JStr ''2025-01-01T00:00:00.000Z'', end_time = JNull,
             page_views = 1, user_agent = Some ''Mozilla/5.0''\<rparr>
   \<and> (\<exists>r. sessions (fst (run [post [early_click] (Some ''curl/8.0'')] seeded_db)) (JStr ''sess_a'')
               = Some r
          \<and> user_agent r = Some ''Mozilla/5.0'')"
  using user_agent_first_write_wins
    [of seeded_db "JStr ''sess_a''"
        "\<lparr>start_time = JStr ''2025-01-01T00:00:00.000Z'', end_time = JNull,
             page_views = 1, user_agent = Some ''Mozilla/5.0''\<rparr>"
        "''Mozilla/5.0''"
        "[post [early_click] (Some ''curl/8.0'')]"
        "fst (run [post [early_click] (Some ''curl/8.0'')] seeded_db)"
        "snd (run [post [early_click] (Some ''curl/8.0'')] seeded_db)"]
  by (simp add: seeded_db_def)

text \<open>
  The click first and the pageview five seconds later, with the event of another
  visitor between them that carries an earlier time: the batch is not in the
  order of its timestamps, the events of the session are.
\<close>

theorem session_row_invariant_witness:
  "sessions (fst (run [post [early_click, other_visitor, late_pageview] None] empty_db))
       (JStr ''sess_a'')
     = Some \<lparr>start_time = JStr ''2025-01-01T00:00:05.000Z'',
             end_time = JStr ''2025-01-01T00:00:10.000Z'',
             page_views = 1, user_agent = None\<rparr>
   \<and> events_of (JStr ''sess_a'')
         (snd (run [post [early_click, other_visitor, late_pageview] None] empty_db))
       = [early_click, late_pageview]
   \<and> chronological [early_click, late_pageview]
   \<and> \<not> chronological (snd (run [post [early_click, other_visitor, late_pageview] None] empty_db))
   \<and> ts_le (JStr ''2025-01-01T00:00:05.000Z'') (JStr ''2025-01-01T00:00:10.000Z'')"
  using session_row_invariant
    [of "[post [early_click, other_visitor, late_pageview] None]"
        "fst (run [post [early_click, other_visitor, late_pageview] None] empty_db)"
        "snd (run [post [early_click, other_visitor, late_pageview] None] empty_db)"
        "JStr ''sess_a''"
        "\<lparr>start_time = JStr ''2025-01-01T00:00:05.000Z'',
          end_time = JStr ''2025-01-01T00:00:10.000Z'',
          page_views = 1, user_agent = None\<rparr>"]
  by (simp add: post_def post_events_def write_event_def upsert_session_def insert_event_def
      sql_param_def or_else_def reply_def batch_def empty_db_def
      late_pageview_def early_click_def other_visitor_def chronological_def event_time_def
      events_of_def)

text \<open>
  Claim C9 as stated fails: one batch whose events are not in the order of their
  timestamps (recovered events are queued behind the pageview of the new page)
  leaves a row whose \<open>end_time\<close> precedes its \<open>start_time\<close>.
\<close>

theorem end_time_before_start_time:
  "sessions (fst (run [post [late_pageview, early_click] None] empty_db)) (JStr ''sess_a'')
     = Some \<lparr>start_time = JStr ''2025-01-01T00:00:10.000Z'',
             end_time = JStr ''2025-01-01T00:00:05.000Z'',
             page_views = 1, user_agent = None\<rparr>
   \<and> \<not> ts_le (JStr ''2025-01-01T00:00:10.000Z'') (JStr ''2025-01-01T00:00:05.000Z'')"
  by (simp add: post_def post_events_def write_event_def upsert_session_def insert_event_def
      sql_param_def or_else_def reply_def batch_def empty_db_def
      late_pageview_def early_click_def)

text \<open>
  A batch of two events: a pageview, then an event as \<open>track\<close> builds it,
  of type \<open>scroll\<close>, without a referrer.
\<close>

theorem event_type_not_checked_witness:
  "well_formed late_pageview
   \<and> well_formed (event_of ''sess_a'' home (JStr ''scroll'') (JObj [(''depth'', JNum 3)]))
   \<and> fst (post_events no_faults
            \<lparr>body = JArr [late_pageview,
                           event_of ''sess_a'' home (JStr ''scroll'') (JObj [(''depth'', JNum 3)])],
             headers = Map.empty\<rparr> empty_db)
       = reply 200 [(''message'', JStr ''Events ingested successfully''), (''count'', JNum 2)]
   \<and> map event_type (events (snd (post_events no_faults
            \<lparr>body = JArr [late_pageview,
                           event_of ''sess_a'' home (JStr ''scroll'') (JObj [(''depth'', JNum 3)])],
             headers = Map.empty\<rparr> empty_db)))
       = [JStr ''pageview'', JStr ''scroll'']
   \<and> map referrer (events (snd (post_events no_faults
            \<lparr>body = JArr [late_pageview,
                           event_of ''sess_a'' home (JStr ''scroll'') (JObj [(''depth'', JNum 3)])],
             headers = Map.empty\<rparr> empty_db)))
       = [JNull, JNull]
   \<and> map metadata (events (snd (post_events no_faults
            \<lparr>body = JArr [late_pageview,
                           event_of ''sess_a'' home (JStr ''scroll'') (JObj [(''depth'', JNum 3)])],
             headers = Map.empty\<rparr> empty_db)))
       = [JObj [], JObj [(''depth'', JNum 3)]]
   \<and> sessions (snd (post_events no_faults
            \<lparr>body = JArr [late_pageview,
                           event_of ''sess_a'' home (JStr ''scroll'') (JObj [(''depth'', JNum 3)])],
             headers = Map.empty\<rparr> empty_db)) (JStr ''sess_a'')
       = Some \<lparr>start_time = JStr ''2025-01-01T00:00:10.000Z'',
               end_time = JStr ''2025-01-01T00:00:20.000Z'',
               page_views = 1, user_agent = None\<rparr>"
  using event_type_not_checked
    [of "\<lparr>body = JArr [late_pageview,
                           event_of ''sess_a'' home (JStr ''scroll'') (JObj [(''depth'', JNum 3)])],
             headers = Map.empty\<rparr>"
        "[late_pageview, event_of ''sess_a'' home (JStr ''scroll'') (JObj [(''depth'', JNum 3)])]"
        empty_db
        "fst (post_events no_faults
            \<lparr>body = JArr [late_pageview,
                           event_of ''sess_a'' home (JStr ''scroll'') (JObj [(''depth'', JNum 3)])],
             headers = Map.empty\<rparr> empty_db)"
        "snd (post_events no_faults
            \<lparr>body = JArr [late_pageview,
                           event_of ''sess_a'' home (JStr ''scroll'') (JObj [(''depth'', JNum 3)])],
             headers = Map.empty\<rparr> empty_db)"]
  by (simp add: post_events_def write_event_def upsert_session_def insert_event_def
      sql_param_def or_else_def reply_def empty_db_def well_formed_def carries_def
      late_pageview_def event_of_def home_def)

section \<open>Properties of the delivery engine\<close>

lemma track_in_flight:
  "isFlushing st \<Longrightarrow>
     track pg eventType meta st
       = st\<lparr>queue := queue st @ [event_of (sessionId st) pg eventType meta]\<rparr>"
  by (simp add: track_def flush_start_def Let_def)

lemma track_all_in_flight:
  "isFlushing st \<Longrightarrow>
     track_all calls st =
       st\<lparr>queue := queue st
              @ map (\<lambda>(pg, eventType, meta). event_of (sessionId st) pg eventType meta) calls\<rparr>"
proof (induction calls arbitrary: st)
  case Nil
  then show ?case by simp
next
  case (Cons c calls)
  obtain pg eventType meta where c: "c = (pg, eventType, meta)" by (cases c)
  let ?st1 = "track pg eventType meta st"
  have t: "?st1 = st\<lparr>queue := queue st @ [event_of (sessionId st) pg eventType meta]\<rparr>"
    using Cons.prems by (rule track_in_flight)
  then have "isFlushing ?st1" using Cons.prems by simp
  from Cons.IH [OF this] show ?case
    unfolding c by (simp add: t)
qed


text \<open>
  Claim C3, amended. A flush that fails when it is synchronous, or when the
  retry counter has reached 3 (the first attempt and the three retries have
  failed: the fourth failure in a row, not the third), appends its snapshot to
  the array in \<open>localStorage\<close>, keeps the last 100 entries of the result (the
  oldest go first), leaves the live queue without the snapshot and sets no
  timer; this needs a \<open>localStorage\<close> that is there, readable and writable.
\<close>

theorem spill_when_exhausted_or_synchronous:
  assumes "res \<noteq> Ok" and "synchronous \<or> maxRetries \<le> retryCount st"
    and "queue st \<noteq> []" and "\<not> isFlushing st"
    and "localStorage st = Some item" and "item \<noteq> Garbled" and "\<not> storage_full st"
  shows "flush synchronous res st
           = st\<lparr>queue := [],
                 fetches := fetches st @ [(synchronous, queue st)],
                 localStorage := Some (Stored (slice_last 100 (contents item @ queue st)))\<rparr>
         \<and> length (slice_last 100 (contents item @ queue st)) \<le> 100
         \<and> (\<exists>dropped. contents item @ queue st
                          = dropped @ slice_last 100 (contents item @ queue st))"
proof -
  have "flush synchronous res st
           = st\<lparr>queue := [],
                 fetches := fetches st @ [(synchronous, queue st)],
                 localStorage := Some (Stored (slice_last 100 (contents item @ queue st)))\<rparr>"
    using assms
    by (cases item) (auto simp: flush_def flush_start_def flush_finish_def store_failed_def)
  moreover have "length (slice_last 100 (contents item @ queue st)) \<le> 100"
    by (simp add: slice_last_def)
  moreover have "\<exists>dropped. contents item @ queue st
                             = dropped @ slice_last 100 (contents item @ queue st)"
    unfolding slice_last_def by (metis append_take_drop_id)
  ultimately show ?thesis by blast
qed

text \<open>
  The build of src/unnamed/part_002 keeps nothing in the same situation: the
  snapshot is in neither the queue nor a store.
\<close>

lemma part_002_drops_the_batch:
  assumes "res \<noteq> Ok" and "synchronous \<or> maxRetries \<le> retryCount st"
  shows "flush_finish_part_002 synchronous eventsToSend res st = st\<lparr>isFlushing := False\<rparr>"
  using assms by (auto simp: flush_finish_part_002_def)

text \<open>
  Claim C5, amended. A call of \<open>track\<close> that finds 50 or more events queued and
  no flush in flight starts a flush of exactly those events and puts the new
  event alone in the fresh queue. When a flush is in flight the call of
  \<open>flush()\<close> does nothing: no request is made and the new event joins the
  events already queued.
\<close>

theorem track_at_capacity:
  assumes "maxQueueSize \<le> length (queue st)"
  shows "(\<not> isFlushing st \<longrightarrow>
            track pg eventType meta st
              = st\<lparr>isFlushing := True,
                   queue := [event_of (sessionId st) pg eventType meta],
                   fetches := fetches st @ [(False, queue st)]\<rparr>)
       \<and> (isFlushing st \<longrightarrow>
            track pg eventType meta st
              = st\<lparr>queue := queue st @ [event_of (sessionId st) pg eventType meta]\<rparr>)"
  using assms by (auto simp: track_def flush_start_def Let_def maxQueueSize_def)

text \<open>
  Claim C7, amended. When the fallback store holds events,
  \<open>recoverFailedEvents\<close> empties the store, appends the events to the end of the
  live queue, behind the events already queued, and sets a timer of 1000
  milliseconds for a flush. When the store is absent, empty or unreadable, it
  changes nothing and sets no timer.
\<close>

theorem recovery_appends:
  "(gm_store st = None \<and> localStorage st = Some (Stored failed) \<and> failed \<noteq> [] \<longrightarrow>
      recoverFailedEvents st
        = st\<lparr>localStorage := Some Missing, queue := queue st @ failed,
             timers := timers st @ [(1000, DelayedFlush)]\<rparr>)
   \<and> (gm_store st = Some (Stored failed) \<and> gm_writable st \<and> failed \<noteq> [] \<longrightarrow>
      recoverFailedEvents st
        = st\<lparr>gm_store := Some (Stored []), queue := queue st @ failed,
             timers := timers st @ [(1000, DelayedFlush)]\<rparr>)
   \<and> (gm_store st = None
        \<and> localStorage st \<in> {None, Some Missing, Some Garbled, Some (Stored [])} \<longrightarrow>
      recoverFailedEvents st = st)"
  by (auto simp: recoverFailedEvents_def)

text \<open>An empty or unreadable userscript store changes nothing either.\<close>

lemma recovery_nothing_in_userscript_store:
  assumes "gm_store st \<in> {Some Missing, Some Garbled, Some (Stored [])}"
  shows "recoverFailedEvents st = st"
  using assms by (auto simp: recoverFailedEvents_def)

text \<open>
  The build of src/public/pixel.js appends in the same way and calls the flush at
  once instead of setting a timer.
\<close>

lemma recovery_public_appends:
  assumes "localStorage st = Some (Stored failed)" and "failed \<noteq> []" and "\<not> isFlushing st"
  shows "recoverFailedEvents_public st
           = st\<lparr>queue := [], localStorage := Some Missing, isFlushing := True,
                 fetches := fetches st @ [(False, queue st @ failed)]\<rparr>"
  using assms by (simp add: recoverFailedEvents_public_def flush_start_def)

section \<open>Properties of the session manager\<close>

text \<open>
  Claim C6, amended. With a storage that can be read and written: a record
  whose \<open>lastActivity\<close> is less than 30 minutes before \<open>now\<close> is refreshed and
  its id returned; without a record, with an unreadable one or with one that is
  30 minutes old or older, a new id is made, stored and returned. The new id is
  \<open>sess_\<close>, then the first 9 digits after the point of the random number's
  rendering in base 36, or all of them when there are fewer, then the time in
  base 36. The random part has 9 characters when the rendering has 9 digits or
  more, and never more than 9.
\<close>

theorem session_reuse_or_mint:
  assumes "\<not> getItem_throws env" and "\<not> setItem_throws env"
  shows "(\<forall>sd. session_item env = Item sd \<and> now rd - last_seen sd < sessionTimeout \<longrightarrow>
            getOrCreateSession rd env
              = (stored_sessionId sd,
                 env\<lparr>session_item := Item (sd\<lparr>lastActivity := Some (now rd)\<rparr>)\<rparr>))
       \<and> (session_item env = NoItem \<or> session_item env = BadItem
            \<or> (\<exists>sd. session_item env = Item sd \<and> sessionTimeout \<le> now rd - last_seen sd) \<longrightarrow>
            getOrCreateSession rd env
              = (''sess_'' @ take 9 (drop 2 (random36 rd)) @ base36 (id_now rd),
                 env\<lparr>session_item := Item
                   \<lparr>stored_sessionId = ''sess_'' @ take 9 (drop 2 (random36 rd)) @ base36 (id_now rd),
                    created = created_now rd,
                    lastActivity = Some (activity_now rd)\<rparr>\<rparr>))
       \<and> length (take 9 (drop 2 (random36 rd))) \<le> 9
       \<and> (11 \<le> length (random36 rd) \<longrightarrow> length (take 9 (drop 2 (random36 rd))) = 9)"
  using assms
  by (auto simp: getOrCreateSession_def create_session_def generateId_def substr_def Let_def
      split: session_item.splits)

text \<open>Without a storage the id is made in memory and nothing is stored.\<close>

lemma session_without_storage:
  assumes "getItem_throws env" and "window_pixelSessionId env = None"
  shows "getOrCreateSession rd env
           = (''sess_'' @ generateId (fallback_random36 rd) (fallback_now rd),
              env\<lparr>window_pixelSessionId :=
                    Some (''sess_'' @ generateId (fallback_random36 rd) (fallback_now rd))\<rparr>)"
  using assms by (simp add: getOrCreateSession_def fallback_session_def Let_def)

section \<open>The delivery engine and the session manager at concrete inputs\<close>


text \<open>
  Claim C3 as stated fails: after three failures in a row, counted from a fresh
  counter, the batch is back in the live queue, the store is untouched and a
  third retry is set for 3000 milliseconds later.
\<close>

theorem three_failures_still_queued:
  "queue after_three_failures = [late_pageview]
   \<and> localStorage after_three_failures = Some Missing
   \<and> retryCount after_three_failures = 3
   \<and> timers after_three_failures = [(1000, RetryFlush), (2000, RetryFlush), (3000, RetryFlush)]"
  by (simp add: flush_def flush_start_def flush_finish_def store_failed_def run_task_def
      maxRetries_def retryDelay_def slice_last_def idle_pixel_def after_three_failures_def)

text \<open>The fourth failure spills.\<close>

theorem spill_when_exhausted_or_synchronous_witness:
  "Rejected \<noteq> Ok \<and> maxRetries \<le> retryCount after_three_failures
   \<and> queue after_three_failures \<noteq> [] \<and> \<not> isFlushing after_three_failures
   \<and> localStorage after_three_failures = Some Missing \<and> Missing \<noteq> Garbled
   \<and> \<not> storage_full after_three_failures
   \<and> queue (flush False Rejected after_three_failures) = []
   \<and> localStorage (flush False Rejected after_three_failures) = Some (Stored [late_pageview])
   \<and> timers (flush False Rejected after_three_failures) = timers after_three_failures"
  using spill_when_exhausted_or_synchronous [of Rejected False after_three_failures Missing]
  by (simp add: flush_def flush_start_def flush_finish_def store_failed_def run_task_def
      maxRetries_def retryDelay_def slice_last_def idle_pixel_def after_three_failures_def)

text \<open>The 51st event at rest: the 50 are sent, the new one is alone in the queue.\<close>

text \<open>The state after a started flush and 50 clicks.\<close>

lemma full_pixel_in_flight_state:
  "full_pixel_in_flight
     = idle_pixel\<lparr>isFlushing := True,
                    queue := replicate 50 (event_of ''sess_a'' home (JStr ''click'') (JObj [])),
                    fetches := [(False, [late_pageview])]\<rparr>"
proof -
  have "isFlushing (flush_start False idle_pixel)"
    by (simp add: flush_start_def idle_pixel_def)
  from track_all_in_flight [OF this] show ?thesis
    by (simp add: full_pixel_in_flight_def flush_start_def idle_pixel_def map_replicate)
qed

text \<open>
  Claim C5 as stated fails: with a flush in flight and 50 events queued, the next
  call of \<open>track\<close> makes no request and the queue grows to 51.
\<close>

theorem track_while_flushing_sends_nothing:
  "length (queue full_pixel_in_flight) = 50
   \<and> isFlushing full_pixel_in_flight
   \<and> fetches (track home (JStr ''click'') (JObj []) full_pixel_in_flight)
       = fetches full_pixel_in_flight
   \<and> queue (track home (JStr ''click'') (JObj []) full_pixel_in_flight)
       = queue full_pixel_in_flight @ [event_of ''sess_a'' home (JStr ''click'') (JObj [])]
   \<and> length (queue (track home (JStr ''click'') (JObj []) full_pixel_in_flight)) = 51"
  by (simp add: full_pixel_in_flight_state track_def flush_start_def maxQueueSize_def
      idle_pixel_def Let_def)

text \<open>
  The 51st event at rest: the 50 are sent and the new one is alone in the queue.
  The 51st event with a flush in flight: it joins the 50.
\<close>

theorem track_at_capacity_witness:
  "maxQueueSize \<le> length (queue full_pixel) \<and> \<not> isFlushing full_pixel
   \<and> track home (JStr ''click'') (JObj []) full_pixel
       = full_pixel\<lparr>isFlushing := True,
                     queue := [event_of ''sess_a'' home (JStr ''click'') (JObj [])],
                     fetches := [(False, replicate 50 late_pageview)]\<rparr>
   \<and> maxQueueSize \<le> length (queue full_pixel_in_flight) \<and> isFlushing full_pixel_in_flight
   \<and> track home (JStr ''click'') (JObj []) full_pixel_in_flight
       = full_pixel_in_flight
           \<lparr>queue := replicate 50 (event_of ''sess_a'' home (JStr ''click'') (JObj []))
                        @ [event_of ''sess_a'' home (JStr ''click'') (JObj [])]\<rparr>"
  using track_at_capacity [of full_pixel home "JStr ''click''" "JObj []"]
    track_at_capacity [of full_pixel_in_flight home "JStr ''click''" "JObj []"]
  by (simp add: full_pixel_in_flight_state full_pixel_def idle_pixel_def maxQueueSize_def)

text \<open>
  One event queued and one in the store, in \<open>localStorage\<close> and in the
  userscript store; and a start with nothing to recover.
\<close>

theorem recovery_appends_witness:
  "gm_store spilled_pixel = None \<and> localStorage spilled_pixel = Some (Stored [early_click])
   \<and> recoverFailedEvents spilled_pixel
       = spilled_pixel\<lparr>localStorage := Some Missing,
                        queue := [late_pageview, early_click],
                        timers := [(1000, DelayedFlush)]\<rparr>
   \<and> gm_store gm_pixel = Some (Stored [early_click]) \<and> gm_writable gm_pixel
   \<and> recoverFailedEvents gm_pixel
       = gm_pixel\<lparr>gm_store := Some (Stored []),
                   queue := [late_pageview, early_click],
                   timers := [(1000, DelayedFlush)]\<rparr>
   \<and> gm_store idle_pixel = None \<and> localStorage idle_pixel = Some Missing
   \<and> recoverFailedEvents idle_pixel = idle_pixel"
  using recovery_appends [of spilled_pixel "[early_click]"]
    recovery_appends [of gm_pixel "[early_click]"]
    recovery_appends [of idle_pixel "[]"]
  by (simp add: spilled_pixel_def gm_pixel_def idle_pixel_def)

text \<open>
  Claim C7 as stated fails: the recovered event is behind the event that was
  queued before the recovery, not ahead of it.
\<close>

theorem recovered_events_go_last:
  "queue spilled_pixel = [late_pageview]
   \<and> localStorage spilled_pixel = Some (Stored [early_click])
   \<and> queue (recoverFailedEvents spilled_pixel) = [late_pageview, early_click]
   \<and> queue (recoverFailedEvents spilled_pixel) \<noteq> [early_click, late_pageview]"
  by (simp add: recoverFailedEvents_def spilled_pixel_def idle_pixel_def
      late_pageview_def early_click_def)

lemma base36_example: "base36 1700000000000 = ''loyw3v28''"
  by (simp add: base36.simps digit36_def)

text \<open>
  A start-up without a record, one with a record a minute old, and one with a
  record that is 30 minutes old.
\<close>

theorem session_reuse_or_mint_witness:
  "\<not> getItem_throws fresh_storage \<and> \<not> setItem_throws fresh_storage
   \<and> session_item fresh_storage = NoItem
   \<and> fst (getOrCreateSession long_readings fresh_storage) = ''sess_4fzyo82mvloyw3v28''
   \<and> now long_readings - 1699999940000 < sessionTimeout
   \<and> getOrCreateSession long_readings live_storage
       = (''sess_a'',
          fresh_storage\<lparr>session_item := Item \<lparr>stored_sessionId = ''sess_a'',
                                                  created = 1699999000000,
                                                  lastActivity = Some 1700000000000\<rparr>\<rparr>)
   \<and> sessionTimeout \<le> now long_readings - 1699998200000
   \<and> getOrCreateSession long_readings stale_storage
       = (''sess_4fzyo82mvloyw3v28'',
          fresh_storage\<lparr>session_item := Item \<lparr>stored_sessionId = ''sess_4fzyo82mvloyw3v28'',
                                                  created = 1700000000000,
                                                  lastActivity = Some 1700000000000\<rparr>\<rparr>)"
  using session_reuse_or_mint [of fresh_storage long_readings]
    session_reuse_or_mint [of live_storage long_readings]
    session_reuse_or_mint [of stale_storage long_readings]
  by (simp add: fresh_storage_def live_storage_def stale_storage_def long_readings_def
      half_readings_def last_seen_def sessionTimeout_def base36_example)

text \<open>
  Claim C6 as stated fails twice: when \<open>Math.random()\<close> returns one half the
  random part of the new id is the single character \<open>i\<close>; and when the
  storage refuses the calls the id that is returned is stored nowhere.
\<close>

theorem one_random_character_or_nothing_stored:
  "fst (getOrCreateSession half_readings fresh_storage) = ''sess_iloyw3v28''
   \<and> base36 (id_now half_readings) = ''loyw3v28''
   \<and> take 9 (drop 2 (random36 half_readings)) = ''i''
   \<and> fst (getOrCreateSession long_readings blocked_storage) = ''sess_iloyw3v28''
   \<and> session_item (snd (getOrCreateSession long_readings blocked_storage)) = NoItem"
  by (simp add: getOrCreateSession_def create_session_def fallback_session_def generateId_def
      substr_def Let_def fresh_storage_def blocked_storage_def half_readings_def
      long_readings_def base36_example)

end
